theory Spec2Isabelle
  imports Main "HOL-Library.Char_ord" "HOL-Library.List_Lexorder" "HOL-Library.Multiset"
begin

text \<open>
  A model of \<open>kmzAutomationBulk.py\<close>. The functions of the program are functions here,
  under their names: the document tree is a value and element references are paths into
  it, the file system is a value that every function with an effect takes and returns, and
  an exception is a result of its own kind, returned together with the file system as it
  is when the exception leaves the function. The definitions come first, in the order of
  the program; the properties follow. Line numbers refer to the source file.
\<close>

section \<open>Strings\<close>

text \<open>
  Python strings are modelled as \<open>string\<close> (lists of 8-bit characters). The digit class
  \<open>\d\<close> of the regular expression and the white space of \<open>str.strip\<close> are taken
  on ASCII; characters outside ASCII are neither digits nor white space here.
\<close>

definition is_digit :: "char \<Rightarrow> bool" where
  "is_digit c = (c \<in> set ''0123456789'')"

definition digit_val :: "char \<Rightarrow> int" where
  "digit_val c = int (of_char c) - 48"

text \<open>\<open>int(s)\<close> on a non-empty string of decimal digits.\<close>

definition int_of_digits :: "string \<Rightarrow> int" where
  "int_of_digits ds = foldl (\<lambda>a c. 10 * a + digit_val c) 0 ds"

text \<open>
  \<open>s.rsplit(sep, 1)\<close>: the string is cut at the last occurrence of the separator;
  without an occurrence the result is the one-element list \<open>[s]\<close>.
\<close>

definition rsplit1 :: "char \<Rightarrow> string \<Rightarrow> string list" where
  "rsplit1 sep s =
     (if sep \<in> set s
      then [rev (tl (dropWhile (\<lambda>c. c \<noteq> sep) (rev s))), rev (takeWhile (\<lambda>c. c \<noteq> sep) (rev s))]
      else [s])"

section \<open>Sort key extraction\<close>

text \<open>
  \<open>parse_trailing_number\<close> (lines 47-58). \<open>re.match(r"^(\d+)", suffix)\<close> succeeds
  iff the suffix starts with a digit, and its group is the longest run of leading digits.
\<close>

definition parse_trailing_number :: "string \<Rightarrow> int" where
  "parse_trailing_number name_str =
     (if name_str = [] then 999999999
      else
        let parts = rsplit1 (CHR ''-'') name_str in
        if length parts < 2 then 999999999
        else
          let suffix = parts ! 1;
              group1 = takeWhile is_digit suffix
          in if group1 \<noteq> [] then int_of_digits group1 else 999999999)"


text \<open>
  \<open>str.strip\<close>, \<open>os.path.basename\<close> and \<open>os.path.splitext\<close> (POSIX flavour: the only
  separator is \<open>/\<close>).
\<close>

definition is_space :: "char \<Rightarrow> bool" where
  "is_space c = (of_char c \<in> {9, 10, 11, 12, 13, 28, 29, 30, 31, 32 :: nat})"

definition strip :: "string \<Rightarrow> string" where
  "strip s = rev (dropWhile is_space (rev (dropWhile is_space s)))"

definition basename :: "string \<Rightarrow> string" where
  "basename p = rev (takeWhile (\<lambda>c. c \<noteq> CHR ''/'') (rev p))"

definition splitext :: "string \<Rightarrow> string \<times> string" where
  "splitext p =
     (let fname = basename p;
          head = take (length p - length fname) p
      in if CHR ''.'' \<in> set fname
         then
           let ext = CHR ''.'' # rev (takeWhile (\<lambda>c. c \<noteq> CHR ''.'') (rev fname));
               stem = take (length fname - length ext) fname
           in if \<exists>c\<in>set stem. c \<noteq> CHR ''.'' then (head @ stem, ext) else (p, [])
         else (p, []))"

section \<open>The document tree\<close>

text \<open>
  An element of \<open>xml.etree.ElementTree\<close> with its tag, its text and its children.
  Attributes and tail text are left out: no function of the program reads or writes them.
  Tags are the qualified names the parser produces, \<open>{namespace}local\<close>.

  A Python reference to an element is a path here: the list of child indices that leads
  from the root to the element. The tree is a value, and a mutation through a reference is
  an update at its path.
\<close>

datatype elem = Elem (tag: string) (text_of: "string option") (children: "elem list")

type_synonym npath = "nat list"

definition kml_ns :: string where
  "kml_ns = ''{http://www.opengis.net/kml/2.2}''"

definition tag_GroundOverlay :: string where "tag_GroundOverlay = kml_ns @ ''GroundOverlay''"
definition tag_Document :: string where "tag_Document = kml_ns @ ''Document''"
definition tag_Folder :: string where "tag_Folder = kml_ns @ ''Folder''"
definition tag_name :: string where "tag_name = kml_ns @ ''name''"
definition tag_Icon :: string where "tag_Icon = kml_ns @ ''Icon''"
definition tag_href :: string where "tag_href = kml_ns @ ''href''"

text \<open>The element a path denotes, if any, and the update of the element at a path.\<close>

fun get_at :: "elem \<Rightarrow> npath \<Rightarrow> elem option" where
  "get_at e [] = Some e"
| "get_at e (i # p) = (if i < length (children e) then get_at (children e ! i) p else None)"

fun update_at :: "npath \<Rightarrow> (elem \<Rightarrow> elem) \<Rightarrow> elem \<Rightarrow> elem" where
  "update_at [] f e = f e"
| "update_at (i # p) f e =
     (if i < length (children e)
      then Elem (tag e) (text_of e) ((children e)[i := update_at p f (children e ! i)])
      else e)"

text \<open>
  The proper descendants of an element in document order, each with its path from the
  element: this is \<open>elem.iter()\<close> without the element itself, the order in which
  \<open>.//tag\<close> searches.
\<close>

fun desc :: "elem \<Rightarrow> (npath \<times> elem) list"
  and desc_list :: "nat \<Rightarrow> elem list \<Rightarrow> (npath \<times> elem) list" where
  "desc (Elem t x cs) = desc_list 0 cs"
| "desc_list i [] = []"
| "desc_list i (c # cs) = ([i], c) # map (\<lambda>(p, e). (i # p, e)) (desc c) @ desc_list (Suc i) cs"

text \<open>
  \<open>e.findall(".//kml:tag")\<close>, \<open>e.findall("kml:tag")\<close> and
  \<open>e.findall(".//kml:Icon/kml:href")\<close>: the \<open>href\<close> children of the \<open>Icon\<close>
  descendants, \<open>Icon\<close> by \<open>Icon\<close>. \<open>find\<close> is the first element of \<open>findall\<close>.
\<close>

definition findall_desc :: "string \<Rightarrow> elem \<Rightarrow> (npath \<times> elem) list" where
  "findall_desc tg e = filter (\<lambda>(p, d). tag d = tg) (desc e)"

definition findall_child :: "string \<Rightarrow> elem \<Rightarrow> (nat \<times> elem) list" where
  "findall_child tg e = filter (\<lambda>(i, c). tag c = tg) (enumerate 0 (children e))"

definition icon_hrefs :: "elem \<Rightarrow> (npath \<times> elem) list" where
  "icon_hrefs e =
     concat (map (\<lambda>(p, icon). map (\<lambda>(i, c). (p @ [i], c)) (findall_child tag_href icon))
                 (findall_desc tag_Icon e))"


text \<open>\<open>e.text = x\<close> and \<open>e.append(c)\<close>.\<close>
definition set_text :: "string option \<Rightarrow> elem \<Rightarrow> elem" where
  "set_text x e = Elem (tag e) x (children e)"

definition append_child :: "elem \<Rightarrow> elem \<Rightarrow> elem" where
  "append_child c e = Elem (tag e) (text_of e) (children e @ [c])"

text \<open>
  The exceptions of the program. \<open>DanglingReference\<close> is not one of them: it is the
  answer of the model when a path denotes no element, which \<open>build_tree_no_dangling\<close>
  shows not to happen.
\<close>

datatype error = ParseError | ValueError | BadZipFile | OSError | DanglingReference

text \<open>\<open>get_overlay_key\<close> (lines 67-71).\<close>

definition get_overlay_key :: "elem \<Rightarrow> int" where
  "get_overlay_key overlay =
     (case findall_desc tag_name overlay of
        [] \<Rightarrow> 999999999
      | (p, name_el) # _ \<Rightarrow>
          (case text_of name_el of
             None \<Rightarrow> 999999999
           | Some s \<Rightarrow> if s = [] then 999999999 else parse_trailing_number s))"

text \<open>
  \<open>reorder_overlays\<close> (lines 60-81). The children carry their index as identity;
  \<open>document_node.remove(ov)\<close> removes the child that is \<open>ov\<close>, and every overlay is a
  child, so that \<open>remove\<close> does not raise here. \<open>sorted\<close> is stable, as \<open>sort_key\<close> is.
\<close>

definition reorder_overlays :: "elem \<Rightarrow> elem" where
  "reorder_overlays document_node =
     (let kids = enumerate 0 (children document_node);
          overlays = filter (\<lambda>(i, c). tag c = tag_GroundOverlay) kids;
          sorted_overlays = sort_key (\<lambda>(i, c). get_overlay_key c) overlays;
          removed = foldl (\<lambda>cs ov. remove1 ov cs) kids overlays;
          appended = foldl (\<lambda>cs ov. cs @ [ov]) removed sorted_overlays
      in Elem (tag document_node) (text_of document_node) (map snd appended))"

text \<open>
  The loop of lines 113-115. \<open>rc\<close> are the children of the root that are left, each with
  the index it had in the input as its identity, \<open>dc\<close> the children of the new
  \<open>Document\<close>. \<open>root.remove(ov)\<close> raises \<open>ValueError\<close> when \<open>ov\<close> is not a child of
  the root, that is when its path is not a single index.
\<close>

fun move_overlays ::
  "npath list \<Rightarrow> (nat \<times> elem) list \<Rightarrow> elem list \<Rightarrow> error + ((nat \<times> elem) list \<times> elem list)" where
  "move_overlays [] rc dc = Inr (rc, dc)"
| "move_overlays (p # ps) rc dc =
     (case p of
        [i] \<Rightarrow>
          (case map_of rc i of
             Some ov \<Rightarrow> move_overlays ps (filter (\<lambda>(j, c). j \<noteq> i) rc) (dc @ [ov])
           | None \<Rightarrow> Inl ValueError)
      | _ \<Rightarrow> Inl ValueError)"

text \<open>Lines 103-106: the first \<open>Document\<close>, else the first \<open>Folder\<close>.\<close>

definition find_desc :: "string \<Rightarrow> elem \<Rightarrow> npath option" where
  "find_desc tg e = (case findall_desc tg e of [] \<Rightarrow> None | (p, d) # _ \<Rightarrow> Some p)"

definition find_group :: "elem \<Rightarrow> npath option" where
  "find_group root =
     (case find_desc tag_Document root of
        Some d \<Rightarrow> Some d
      | None \<Rightarrow> find_desc tag_Folder root)"

text \<open>
  Lines 103-115. The result is the tree, the path of the group node and the path of the
  template in that tree. A synthesized \<open>Document\<close> is the last child of the root, and the
  template, the first overlay that has been moved, is its first child.
\<close>

definition locate_group :: "elem \<Rightarrow> npath list \<Rightarrow> error + (elem \<times> npath \<times> npath)" where
  "locate_group root overlays =
     (case find_group root of
        Some document_node \<Rightarrow> Inr (root, document_node, hd overlays)
      | None \<Rightarrow>
          (case move_overlays overlays (enumerate 0 (children root)) [] of
             Inl e \<Rightarrow> Inl e
           | Inr (rc, dc) \<Rightarrow>
               Inr (Elem (tag root) (text_of root) (map snd rc @ [Elem tag_Document None dc]),
                    [length rc], [length rc, 0])))"

text \<open>Lines 117-123.\<close>

definition set_group_name :: "string \<Rightarrow> elem \<Rightarrow> elem" where
  "set_group_name subfolder_name document_node =
     (case findall_child tag_name document_node of
        (i, doc_name_el) # _ \<Rightarrow>
          Elem (tag document_node) (text_of document_node)
            ((children document_node)[i := set_text (Some subfolder_name) doc_name_el])
      | [] \<Rightarrow> append_child (Elem tag_name (Some subfolder_name) []) document_node)"

text \<open>
  Lines 125-129, and the test of line 141: \<open>original_png\<close> counts when it is not empty.
\<close>

definition original_png_of :: "elem \<Rightarrow> string option" where
  "original_png_of first_overlay =
     (case icon_hrefs first_overlay of
        [] \<Rightarrow> None
      | (q, icon_href_el) # _ \<Rightarrow>
          (case text_of icon_href_el of
             None \<Rightarrow> None
           | Some s \<Rightarrow> if s = [] then None else Some (basename (strip s))))"

definition is_original :: "string option \<Rightarrow> string \<Rightarrow> bool" where
  "is_original original_png fname =
     (case original_png of None \<Rightarrow> False | Some s \<Rightarrow> s \<noteq> [] \<and> fname = s)"

text \<open>Lines 131-144: the file names of the assets for which an overlay is made.\<close>

definition create_list_of :: "string option \<Rightarrow> string list \<Rightarrow> string list" where
  "create_list_of original_png png_filepaths =
     filter (\<lambda>fname. \<not> is_original original_png fname) (map basename png_filepaths)"

text \<open>
  Lines 152-163. The clone is \<open>ET.fromstring(ET.tostring(first_overlay))\<close>; writing an
  element and parsing it again gives an element with the same tags, texts and children,
  which is the element itself in this model.
\<close>

definition make_overlay :: "string \<Rightarrow> string \<Rightarrow> elem \<Rightarrow> elem" where
  "make_overlay subfolder_name fname first_overlay =
     (let new_overlay = first_overlay;
          o1 = (case icon_hrefs new_overlay of
                  [] \<Rightarrow> new_overlay
                | (q, icon_href) # _ \<Rightarrow>
                    update_at q (set_text (Some (subfolder_name @ ''/'' @ fname))) new_overlay)
      in case findall_desc tag_name o1 of
           [] \<Rightarrow> o1
         | (q, overlay_name) # _ \<Rightarrow> update_at q (set_text (Some (fst (splitext fname)))) o1)"

text \<open>
  The loop of lines 151-166. The template is read through its reference in every
  iteration, as the source reads the object.
\<close>

fun add_clones :: "string \<Rightarrow> npath \<Rightarrow> npath \<Rightarrow> string list \<Rightarrow> elem \<Rightarrow> error + elem" where
  "add_clones subfolder_name first doc [] root = Inr root"
| "add_clones subfolder_name first doc (fname # rest) root =
     (case get_at root first of
        None \<Rightarrow> Inl DanglingReference
      | Some first_overlay \<Rightarrow>
          add_clones subfolder_name first doc rest
            (update_at doc (append_child (make_overlay subfolder_name fname first_overlay)) root))"

text \<open>
  Lines 96-166: everything \<open>modify_kml\<close> does to the tree before it reorders the overlays.
  The result \<open>None\<close> stands for the return of \<open>False\<close> at line 100; otherwise it is the
  tree and the path of the group node.
\<close>

definition build_tree :: "elem \<Rightarrow> string list \<Rightarrow> string \<Rightarrow> error + (elem \<times> npath) option" where
  "build_tree root png_filepaths subfolder_name =
     (let overlays = map fst (findall_desc tag_GroundOverlay root) in
      if overlays = [] then Inr None
      else
        case locate_group root overlays of
          Inl e \<Rightarrow> Inl e
        | Inr (root1, document_node, first_overlay) \<Rightarrow>
            let root2 = update_at document_node (set_group_name subfolder_name) root1 in
            (case get_at root2 first_overlay of
               None \<Rightarrow> Inl DanglingReference
             | Some tmpl \<Rightarrow>
                 (case add_clones subfolder_name first_overlay document_node
                         (create_list_of (original_png_of tmpl) png_filepaths) root2 of
                    Inl e \<Rightarrow> Inl e
                  | Inr root3 \<Rightarrow> Inr (Some (root3, document_node)))))"

text \<open>Lines 96-166 and 183: the tree that \<open>modify_kml\<close> writes at line 186.\<close>

definition modify_tree :: "elem \<Rightarrow> string list \<Rightarrow> string \<Rightarrow> error + (elem \<times> npath) option" where
  "modify_tree root png_filepaths subfolder_name =
     (case build_tree root png_filepaths subfolder_name of
        Inl e \<Rightarrow> Inl e
      | Inr None \<Rightarrow> Inr None
      | Inr (Some (root3, document_node)) \<Rightarrow>
          Inr (Some (update_at document_node reorder_overlays root3, document_node)))"

text \<open>\<open>document_node.findall("kml:GroundOverlay")\<close> as values.\<close>

definition overlay_children :: "elem \<Rightarrow> elem list" where
  "overlay_children document_node = filter (\<lambda>c. tag c = tag_GroundOverlay) (children document_node)"



text \<open>
  A tree operation \<open>g\<close> keeps the nodes when every path that denotes a node before
  \<open>g\<close> denotes a node with the same tag afterwards. Node references of the source are
  paths here, so this is what keeps a reference alive across a mutation.
\<close>

definition keeps :: "(elem \<Rightarrow> elem) \<Rightarrow> bool" where
  "keeps g = (\<forall>e r x. get_at e r = Some x \<longrightarrow> (\<exists>y. get_at (g e) r = Some y \<and> tag y = tag x))"


text \<open>A clone for an asset is the template overlay as it is at that moment, relinked and renamed.\<close>

definition clone_of :: "string \<Rightarrow> elem \<Rightarrow> string \<Rightarrow> bool" where
  "clone_of u c f = (\<exists>t. tag t = tag_GroundOverlay \<and> c = make_overlay u f t)"



definition group_overlays_of :: "error + (elem \<times> npath) option \<Rightarrow> elem list" where
  "group_overlays_of r =
     (case r of
        Inr (Some (t, document_node)) \<Rightarrow>
          (case get_at t document_node of Some g \<Rightarrow> overlay_children g | None \<Rightarrow> [])
      | _ \<Rightarrow> [])"

definition display_name :: "elem \<Rightarrow> string option" where
  "display_name overlay =
     (case findall_desc tag_name overlay of [] \<Rightarrow> None | (p, name_el) # _ \<Rightarrow> text_of name_el)"

definition asset_reference :: "elem \<Rightarrow> string option" where
  "asset_reference overlay =
     (case icon_hrefs overlay of [] \<Rightarrow> None | (q, icon_href_el) # _ \<Rightarrow> text_of icon_href_el)"



text \<open>
  The skeleton of a tree forgets every text. What a path query finds depends on the skeleton
  only, and setting a text does not change it.
\<close>

fun sk :: "elem \<Rightarrow> elem" where
  "sk (Elem t x cs) = Elem t None (map sk cs)"









section \<open>The file system\<close>

text \<open>
  A file is what its reader makes of it: a well-formed XML document is the tree
  \<open>ET.parse\<close> returns for it, a zip archive is the list of its file members, anything else
  is opaque bytes. A directory lists its entries in the order the platform reports them.
  Names in a directory are distinct.
\<close>

datatype fcontent = Bytes string | Markup elem | Archive "(string \<times> fcontent) list"

datatype fnode = File fcontent | Dir "(string \<times> fnode) list"

fun is_dir :: "fnode \<Rightarrow> bool" where
  "is_dir (Dir es) = True"
| "is_dir (File c) = False"

text \<open>
  Path strings follow \<open>posixpath\<close>. A path denotes the node reached from the root through
  its non-empty components.
\<close>

fun split_on :: "char \<Rightarrow> string \<Rightarrow> string list" where
  "split_on sep [] = [[]]"
| "split_on sep (c # cs) =
     (if c = sep then [] # split_on sep cs
      else case split_on sep cs of w # ws \<Rightarrow> (c # w) # ws | [] \<Rightarrow> [[c]])"

definition components :: "string \<Rightarrow> string list" where
  "components p = filter (\<lambda>c. c \<noteq> [] \<and> c \<noteq> ''.'') (split_on (CHR ''/'') p)"

definition join :: "string \<Rightarrow> string \<Rightarrow> string" where
  "join a b =
     (if b \<noteq> [] \<and> hd b = CHR ''/'' then b
      else if a = [] \<or> last a = CHR ''/'' then a @ b
      else a @ ''/'' @ b)"

definition dirname :: "string \<Rightarrow> string" where
  "dirname p =
     (let head = take (length p - length (basename p)) p
      in if head \<noteq> [] \<and> (\<exists>c\<in>set head. c \<noteq> CHR ''/'')
         then rev (dropWhile (\<lambda>c. c = CHR ''/'') (rev head))
         else head)"

definition lower_char :: "char \<Rightarrow> char" where
  "lower_char c = (if CHR ''A'' \<le> c \<and> c \<le> CHR ''Z'' then char_of (of_char c + (32 :: nat)) else c)"

definition lower :: "string \<Rightarrow> string" where
  "lower s = map lower_char s"

definition endswith :: "string \<Rightarrow> string \<Rightarrow> bool" where
  "endswith s suf = (length suf \<le> length s \<and> drop (length s - length suf) s = suf)"

fun lookup :: "fnode \<Rightarrow> string list \<Rightarrow> fnode option" where
  "lookup n [] = Some n"
| "lookup (File c) (k # ks) = None"
| "lookup (Dir es) (k # ks) = (case map_of es k of None \<Rightarrow> None | Some n \<Rightarrow> lookup n ks)"

text \<open>An entry is replaced where it stands; a new entry comes last in the listing.\<close>

definition upsert :: "string \<Rightarrow> fnode \<Rightarrow> (string \<times> fnode) list \<Rightarrow> (string \<times> fnode) list" where
  "upsert k v es =
     (if k \<in> set (map fst es) then map (\<lambda>(k', v'). if k' = k then (k, v) else (k', v')) es
      else es @ [(k, v)])"

text \<open>\<open>put\<close> places a node at a path whose parent is an existing directory.\<close>

fun put :: "string list \<Rightarrow> fnode \<Rightarrow> fnode \<Rightarrow> fnode option" where
  "put [] new n = None"
| "put (k # ks) new (File c) = None"
| "put [k] new (Dir es) = Some (Dir (upsert k new es))"
| "put (k # ks) new (Dir es) =
     (case map_of es k of
        None \<Rightarrow> None
      | Some sub \<Rightarrow>
          (case put ks new sub of
             None \<Rightarrow> None
           | Some sub' \<Rightarrow> Some (Dir (upsert k sub' es))))"

fun delete :: "string list \<Rightarrow> fnode \<Rightarrow> fnode" where
  "delete [] n = n"
| "delete (k # ks) (File c) = File c"
| "delete [k] (Dir es) = Dir (filter (\<lambda>(k', v). k' \<noteq> k) es)"
| "delete (k # ks) (Dir es) =
     (case map_of es k of
        None \<Rightarrow> Dir es
      | Some sub \<Rightarrow> Dir (upsert k (delete ks sub) es))"

text \<open>\<open>mkdirs\<close> creates the missing directories along a path; it fails at a file.\<close>

fun mkdirs :: "string list \<Rightarrow> fnode \<Rightarrow> fnode option" where
  "mkdirs [] n = (if is_dir n then Some n else None)"
| "mkdirs (k # ks) (File c) = None"
| "mkdirs (k # ks) (Dir es) =
     (case mkdirs ks (case map_of es k of None \<Rightarrow> Dir [] | Some sub \<Rightarrow> sub) of
        None \<Rightarrow> None
      | Some sub' \<Rightarrow> Some (Dir (upsert k sub' es)))"

definition path_exists :: "fnode \<Rightarrow> string \<Rightarrow> bool" where
  "path_exists fs p = (lookup fs (components p) \<noteq> None)"

definition isfile :: "fnode \<Rightarrow> string \<Rightarrow> bool" where
  "isfile fs p = (case lookup fs (components p) of Some (File c) \<Rightarrow> True | _ \<Rightarrow> False)"

definition isdir :: "fnode \<Rightarrow> string \<Rightarrow> bool" where
  "isdir fs p = (case lookup fs (components p) of Some (Dir es) \<Rightarrow> True | _ \<Rightarrow> False)"

definition read_file :: "fnode \<Rightarrow> string \<Rightarrow> fcontent option" where
  "read_file fs p = (case lookup fs (components p) of Some (File c) \<Rightarrow> Some c | _ \<Rightarrow> None)"

definition listdir :: "fnode \<Rightarrow> string \<Rightarrow> string list option" where
  "listdir fs p = (case lookup fs (components p) of Some (Dir es) \<Rightarrow> Some (map fst es) | _ \<Rightarrow> None)"

text \<open>Opening a file for writing fails on a directory and without the parent directory.\<close>

definition write_file :: "fnode \<Rightarrow> string \<Rightarrow> fcontent \<Rightarrow> fnode option" where
  "write_file fs p c = (if isdir fs p then None else put (components p) (File c) fs)"

text \<open>\<open>os.makedirs\<close> without \<open>exist_ok\<close> fails when the path exists.\<close>

definition makedirs :: "fnode \<Rightarrow> string \<Rightarrow> fnode option" where
  "makedirs fs p = (if path_exists fs p then None else mkdirs (components p) fs)"

text \<open>\<open>shutil.rmtree\<close> fails unless the path is a directory.\<close>

definition rmtree :: "fnode \<Rightarrow> string \<Rightarrow> fnode option" where
  "rmtree fs p = (if isdir fs p \<and> components p \<noteq> [] then Some (delete (components p) fs) else None)"

section \<open>Archives\<close>

text \<open>
  \<open>extract_kmz\<close> (lines 27-30). \<open>extractall\<close> writes every member below the target
  directory, creating the directories on the way; empty, \<open>.\<close> and \<open>..\<close> components of a
  member name are dropped. A file that is not a zip archive raises \<open>BadZipFile\<close>.
\<close>

fun extract_members :: "string \<Rightarrow> (string \<times> fcontent) list \<Rightarrow> fnode \<Rightarrow> (error + unit) \<times> fnode" where
  "extract_members extract_to [] fs = (Inr (), fs)"
| "extract_members extract_to ((name, c) # ms) fs =
     (let target = components extract_to @
                   filter (\<lambda>k. k \<noteq> [] \<and> k \<noteq> ''.'' \<and> k \<noteq> ''..'') (split_on (CHR ''/'') name)
      in case mkdirs (butlast target) fs of
           None \<Rightarrow> (Inl OSError, fs)
         | Some fs1 \<Rightarrow>
             (case (case lookup fs1 target of Some (Dir es) \<Rightarrow> None | _ \<Rightarrow> put target (File c) fs1) of
                None \<Rightarrow> (Inl OSError, fs1)
              | Some fs2 \<Rightarrow> extract_members extract_to ms fs2))"

definition extract_kmz :: "fnode \<Rightarrow> string \<Rightarrow> string \<Rightarrow> (error + unit) \<times> fnode" where
  "extract_kmz fs kmz_path extract_to =
     (case read_file fs kmz_path of
        None \<Rightarrow> (Inl OSError, fs)
      | Some (Archive ms) \<Rightarrow> extract_members extract_to ms fs
      | Some _ \<Rightarrow> (Inl BadZipFile, fs))"

text \<open>
  \<open>create_kmz\<close> (lines 32-45). \<open>os.walk\<close> visits a directory before its subdirectories;
  the loop body sorts the directory names, which fixes the order of the visits below, and
  the file names, and writes the files of the directory. The member name is the path
  relative to the source directory. Sorting the entries by name stands for sorting the
  names, since names in a directory are distinct.
\<close>

function kmz_members :: "string \<Rightarrow> fnode \<Rightarrow> (string \<times> fcontent) list" where
  "kmz_members rel (File c) = []"
| "kmz_members rel (Dir es) =
     (let dirs = sort_key fst (filter (\<lambda>e. is_dir (snd e)) es);
          files = sort_key fst (filter (\<lambda>e. \<not> is_dir (snd e)) es)
      in concat (map (\<lambda>e. case snd e of File c \<Rightarrow> [(join rel (fst e), c)] | Dir x \<Rightarrow> []) files) @
         concat (map (\<lambda>e. kmz_members (join rel (fst e)) (snd e)) dirs))"
  by pat_completeness auto
termination
proof (relation "measure (\<lambda>(rel, n). size n)")
  show "wf (measure (\<lambda>(rel, n). size n))" by simp
next
  fix rel :: string and es :: "(string \<times> fnode) list" and dirs files e
  assume "dirs = sort_key fst (filter (\<lambda>e. is_dir (snd e)) es)" and "e \<in> set dirs"
  then have "e \<in> set es" by simp
  then have "size (snd e) < Suc (size_list (size_prod (\<lambda>x. 0) size) es)"
    by (induction es) (auto simp: less_Suc_eq_le)
  then show "((join rel (fst e), snd e), (rel, Dir es)) \<in> measure (\<lambda>(rel, n). size n)"
    by simp
qed

definition create_kmz :: "fnode \<Rightarrow> string \<Rightarrow> string \<Rightarrow> (error + unit) \<times> fnode" where
  "create_kmz fs source_dir kmz_path =
     (case write_file fs kmz_path (Archive []) of
        None \<Rightarrow> (Inl OSError, fs)
      | Some fs1 \<Rightarrow>
          (let members = (case lookup fs1 (components source_dir) of
                            None \<Rightarrow> []
                          | Some n \<Rightarrow> kmz_members [] n)
           in case write_file fs1 kmz_path (Archive members) of
                None \<Rightarrow> (Inl OSError, fs1)
              | Some fs2 \<Rightarrow> (Inr (), fs2)))"

section \<open>The transformation on disk\<close>

text \<open>
  \<open>shutil.copy2\<close>: a destination that is a directory receives the file under its base
  name; copying a file onto itself raises.
\<close>

definition copy2 :: "fnode \<Rightarrow> string \<Rightarrow> fcontent \<Rightarrow> string \<Rightarrow> fnode option" where
  "copy2 fs src c dst =
     (let target = (if isdir fs dst then join dst (basename src) else dst)
      in if components src = components target then None else write_file fs target c)"

fun copy_pngs :: "string \<Rightarrow> string list \<Rightarrow> fnode \<Rightarrow> (error + unit) \<times> fnode" where
  "copy_pngs subfolder_fullpath [] fs = (Inr (), fs)"
| "copy_pngs subfolder_fullpath (abs_path # rest) fs =
     (let fname = basename abs_path;
          dst_path = join subfolder_fullpath fname
      in case read_file fs abs_path of
           None \<Rightarrow> copy_pngs subfolder_fullpath rest fs
         | Some c \<Rightarrow>
             (case copy2 fs abs_path c dst_path of
                None \<Rightarrow> (Inl OSError, fs)
              | Some fs' \<Rightarrow> copy_pngs subfolder_fullpath rest fs'))"

text \<open>
  \<open>modify_kml\<close> (lines 83-187). The tree is changed in memory by \<open>modify_tree\<close>; nothing
  of that raises after the first file system effect, so the file system effects of lines
  168-180 and the write of line 186 follow it here.
\<close>

definition modify_kml :: "fnode \<Rightarrow> string \<Rightarrow> string list \<Rightarrow> string \<Rightarrow> (error + bool) \<times> fnode" where
  "modify_kml fs kml_path png_filepaths subfolder_name =
     (case read_file fs kml_path of
        None \<Rightarrow> (Inl OSError, fs)
      | Some (Markup root) \<Rightarrow>
          (case modify_tree root png_filepaths subfolder_name of
             Inl e \<Rightarrow> (Inl e, fs)
           | Inr None \<Rightarrow> (Inr False, fs)
           | Inr (Some (root', document_node)) \<Rightarrow>
               (let kml_dir = dirname kml_path;
                    subfolder_fullpath = join kml_dir subfolder_name
                in case (if path_exists fs subfolder_fullpath then Some fs
                         else makedirs fs subfolder_fullpath) of
                     None \<Rightarrow> (Inl OSError, fs)
                   | Some fs1 \<Rightarrow>
                       (case copy_pngs subfolder_fullpath png_filepaths fs1 of
                          (Inl e, fs2) \<Rightarrow> (Inl e, fs2)
                        | (Inr u, fs2) \<Rightarrow>
                            (case write_file fs2 kml_path (Markup root') of
                               None \<Rightarrow> (Inl OSError, fs2)
                             | Some fs3 \<Rightarrow> (Inr True, fs3)))))
      | Some _ \<Rightarrow> (Inl ParseError, fs))"

section \<open>The batch driver\<close>

text \<open>\<open>os.walk\<close> in listing order, as lines 229-235 use it.\<close>

function walk :: "string \<Rightarrow> fnode \<Rightarrow> (string \<times> string list \<times> string list) list" where
  "walk path (File c) = []"
| "walk path (Dir es) =
     (path, map fst (filter (\<lambda>e. is_dir (snd e)) es), map fst (filter (\<lambda>e. \<not> is_dir (snd e)) es)) #
     concat (map (\<lambda>e. walk (join path (fst e)) (snd e)) (filter (\<lambda>e. is_dir (snd e)) es))"
  by pat_completeness auto
termination
proof (relation "measure (\<lambda>(path, n). size n)")
  show "wf (measure (\<lambda>(path, n). size n))" by simp
next
  fix path :: string and es :: "(string \<times> fnode) list" and e
  assume "e \<in> set (filter (\<lambda>e. is_dir (snd e)) es)"
  then have "e \<in> set es" by simp
  then have "size (snd e) < Suc (size_list (size_prod (\<lambda>x. 0) size) es)"
    by (induction es) (auto simp: less_Suc_eq_le)
  then show "((join path (fst e), snd e), (path, Dir es)) \<in> measure (\<lambda>(path, n). size n)"
    by simp
qed

definition find_kml :: "fnode \<Rightarrow> string \<Rightarrow> string option" where
  "find_kml fs temp_dir =
     (case lookup fs (components temp_dir) of
        None \<Rightarrow> None
      | Some n \<Rightarrow>
          (case concat (map (\<lambda>(root_dir, dirs, files).
                          map (join root_dir) (filter (\<lambda>file. endswith (lower file) ''.kml'') files))
                        (walk temp_dir n)) of
             [] \<Rightarrow> None
           | kml_file # _ \<Rightarrow> Some kml_file))"

definition cleanup :: "fnode \<Rightarrow> string \<Rightarrow> bool \<Rightarrow> (error + bool) \<times> fnode" where
  "cleanup fs temp_dir result =
     (case rmtree fs temp_dir of None \<Rightarrow> (Inl OSError, fs) | Some fs' \<Rightarrow> (Inr result, fs'))"

definition temp_dir_of :: "string \<Rightarrow> string \<Rightarrow> string" where
  "temp_dir_of subfolder_path output_folder =
     join output_folder (''temp_extract_'' @ basename subfolder_path)"

definition new_kmz_path_of :: "string \<Rightarrow> string \<Rightarrow> string" where
  "new_kmz_path_of subfolder_path output_folder =
     join output_folder (basename subfolder_path @ '' - transparent.kmz'')"

text \<open>
  \<open>process_subfolder\<close> (lines 189-255). The result is the returned flag or the exception
  that leaves the function, together with the file system as it is at that moment.
\<close>

definition process_subfolder :: "fnode \<Rightarrow> string \<Rightarrow> string \<Rightarrow> (error + bool) \<times> fnode" where
  "process_subfolder fs subfolder_path output_folder =
     (let subfolder_name = basename subfolder_path in
      case listdir fs subfolder_path of
        None \<Rightarrow> (Inl OSError, fs)
      | Some all_files \<Rightarrow>
          (let kmz_files = filter (\<lambda>f. endswith (lower f) ''.kmz'') all_files in
           if kmz_files = [] then (Inr False, fs)
           else
             let original_kmz = hd kmz_files;
                 original_kmz_path = join subfolder_path original_kmz;
                 png_files_abs = map (join subfolder_path)
                                   (filter (\<lambda>f. endswith (lower f) ''.png'') all_files)
             in
             if png_files_abs = [] then (Inr False, fs)
             else
               let new_kmz_path = new_kmz_path_of subfolder_path output_folder;
                   temp_dir = temp_dir_of subfolder_path output_folder
               in
               case (if path_exists fs temp_dir then rmtree fs temp_dir else Some fs) of
                 None \<Rightarrow> (Inl OSError, fs)
               | Some fs1 \<Rightarrow>
                   (case makedirs fs1 temp_dir of
                      None \<Rightarrow> (Inl OSError, fs1)
                    | Some fs2 \<Rightarrow>
                        (case extract_kmz fs2 original_kmz_path temp_dir of
                           (Inl e, fs3) \<Rightarrow> (Inl e, fs3)
                         | (Inr u, fs3) \<Rightarrow>
                             (case find_kml fs3 temp_dir of
                                None \<Rightarrow> cleanup fs3 temp_dir False
                              | Some kml_file \<Rightarrow>
                                  (case modify_kml fs3 kml_file png_files_abs subfolder_name of
                                     (Inl e, fs4) \<Rightarrow> (Inl e, fs4)
                                   | (Inr False, fs4) \<Rightarrow> cleanup fs4 temp_dir False
                                   | (Inr True, fs4) \<Rightarrow>
                                       (case create_kmz fs4 temp_dir new_kmz_path of
                                          (Inl e, fs5) \<Rightarrow> (Inl e, fs5)
                                        | (Inr u, fs5) \<Rightarrow> cleanup fs5 temp_dir True)))))))"





fun same_content :: "fnode \<Rightarrow> fnode \<Rightarrow> bool" where
  "same_content (File c) (File c') = (c = c')"
| "same_content (Dir es) (Dir es') =
     (set (map fst es) = set (map fst es') \<and>
      (\<forall>e\<in>set es. \<forall>e'\<in>set es'. fst e = fst e' \<longrightarrow> same_content (snd e) (snd e')))"
| "same_content (File c) (Dir es') = False"
| "same_content (Dir es) (File c') = False"




section \<open>Example documents\<close>

definition leaf :: "string \<Rightarrow> string \<Rightarrow> elem" where
  "leaf tg s = Elem tg (Some s) []"

definition overlay :: "string \<Rightarrow> string \<Rightarrow> elem" where
  "overlay nm hr =
     Elem tag_GroundOverlay None [leaf tag_name nm, Elem tag_Icon None [leaf tag_href hr]]"

definition tag_kml :: string where
  "tag_kml = kml_ns @ ''kml''"

text \<open>The scenario of the specification: one template named N56E29-001 that references base.png.\<close>

definition scenario_doc :: elem where
  "scenario_doc = Elem tag_kml None [Elem tag_Document None [overlay ''N56E29-001'' ''base.png'']]"

definition scenario_pngs :: "string list" where
  "scenario_pngs = [''/in/N56E29/base.png'', ''/in/N56E29/N56E29-002.png'', ''/in/N56E29/N56E29-010.png'']"


text \<open>
  A document without \<open>Document\<close> and \<open>Folder\<close> whose only overlay is not a child of
  the root: an update of a network link control that changes a ground overlay.
\<close>

definition nested_doc :: elem where
  "nested_doc =
     Elem tag_kml None
       [Elem (kml_ns @ ''NetworkLinkControl'') None
          [Elem (kml_ns @ ''Update'') None
             [Elem (kml_ns @ ''Change'') None [overlay ''N56E29-001'' ''base.png'']]]]"


text \<open>
  A batch of two units. The archive of the first holds a document that is not well-formed;
  the second is the scenario of the specification.
\<close>

definition png :: fnode where
  "png = File (Bytes ''PNG'')"

definition good_unit :: fnode where
  "good_unit =
     Dir [(''orig.kmz'', File (Archive [(''doc.kml'', Markup scenario_doc), (''base.png'', Bytes ''PNG'')])),
          (''base.png'', png), (''N56E29-002.png'', png), (''N56E29-010.png'', png)]"

definition bad_unit :: fnode where
  "bad_unit =
     Dir [(''orig.kmz'', File (Archive [(''doc.kml'', Bytes ''<kml><Document>'')])),
          (''a-1.png'', png)]"

definition batch_fs :: fnode where
  "batch_fs = Dir [(''in'', Dir [(''M55E28'', bad_unit), (''N56E29'', good_unit)]), (''out'', Dir [])]"


text \<open>A working directory whose document has no overlay.\<close>

definition empty_doc :: elem where
  "empty_doc = Elem tag_kml None [Elem tag_Document None [leaf tag_name ''nothing'']]"

definition work_fs :: fnode where
  "work_fs =
     Dir [(''in'', Dir [(''U'', Dir [(''a-1.png'', png)])]),
          (''out'', Dir [(''temp_extract_U'', Dir [(''doc.kml'', File (Markup empty_doc))])])]"



section \<open>Properties of the sort key\<close>







section \<open>Paths and updates\<close>

lemma tags_distinct [simp]:
  "tag_name \<noteq> tag_GroundOverlay" "tag_GroundOverlay \<noteq> tag_name"
  "tag_Document \<noteq> tag_GroundOverlay" "tag_GroundOverlay \<noteq> tag_Document"
  "tag_Folder \<noteq> tag_GroundOverlay" "tag_GroundOverlay \<noteq> tag_Folder"
  "tag_href \<noteq> tag_name" "tag_name \<noteq> tag_href"
  by (simp_all add: tag_name_def tag_GroundOverlay_def tag_Document_def tag_Folder_def tag_href_def)

lemma desc_children: "desc e = desc_list 0 (children e)"
  by (cases e) simp

lemma desc_get_aux:
  "(p, x) \<in> set (desc e) \<Longrightarrow> p \<noteq> [] \<and> get_at e p = Some x"
  and desc_list_get:
  "(p, x) \<in> set (desc_list i cs) \<Longrightarrow>
     \<exists>j r. p = (i + j) # r \<and> j < length cs \<and> get_at (cs ! j) r = Some x"
proof (induction e and i cs arbitrary: p x and p x rule: desc_desc_list.induct)
  case (1 t x cs)
  then show ?case by fastforce
next
  case (2 i)
  then show ?case by simp
next
  case (3 i c cs)
  from "3.prems" consider "p = [i] \<and> x = c"
    | r where "p = i # r" "(r, x) \<in> set (desc c)"
    | "(p, x) \<in> set (desc_list (Suc i) cs)"
    by auto
  then show ?case
  proof cases
    case 1
    then show ?thesis by (intro exI [of _ 0] exI [of _ "[]"]) simp
  next
    case 2
    with "3.IH"(1) have "get_at c r = Some x" by blast
    with 2 show ?thesis by (intro exI [of _ 0] exI [of _ r]) simp
  next
    case 3
    with "3.IH"(2) obtain j r where "p = (Suc i + j) # r" "j < length cs" "get_at (cs ! j) r = Some x"
      by blast
    then show ?thesis by (intro exI [of _ "Suc j"] exI [of _ r]) simp
  qed
qed

lemma desc_get: "(p, x) \<in> set (desc e) \<Longrightarrow> get_at e p = Some x"
  using desc_get_aux by blast

lemma desc_nonempty: "(p, x) \<in> set (desc e) \<Longrightarrow> p \<noteq> []"
  using desc_get_aux by blast

lemma get_update_same:
  "get_at e p = Some d \<Longrightarrow> get_at (update_at p g e) p = Some (g d)"
  by (induction p arbitrary: e) (auto split: if_splits)

lemma tag_update_at: "p \<noteq> [] \<Longrightarrow> tag (update_at p g e) = tag e"
  by (cases p) auto

lemma keeps_update_at:
  assumes "keeps g"
  shows "keeps (update_at p g)"
  unfolding keeps_def
proof (intro allI impI)
  fix e r x
  assume "get_at e r = Some x"
  then show "\<exists>y. get_at (update_at p g e) r = Some y \<and> tag y = tag x"
  proof (induction p arbitrary: e r)
    case Nil
    then show ?case using assms by (simp add: keeps_def)
  next
    case (Cons i p)
    show ?case
    proof (cases r)
      case Nil
      with Cons.prems show ?thesis by simp
    next
      case (Cons j r')
      with Cons.prems have j: "j < length (children e)" and g: "get_at (children e ! j) r' = Some x"
        by (auto split: if_splits)
      show ?thesis
      proof (cases "i < length (children e)")
        case False
        with Cons.prems show ?thesis by simp
      next
        case True
        show ?thesis
        proof (cases "j = i")
          case True
          with Cons.IH [OF g] \<open>i < length (children e)\<close> Cons show ?thesis by simp
        next
          case False
          with g j \<open>i < length (children e)\<close> Cons show ?thesis by simp
        qed
      qed
    qed
  qed
qed

lemma keeps_append_child: "keeps (append_child c)"
  unfolding keeps_def
proof (intro allI impI)
  fix e r x
  assume "get_at e r = Some x"
  then show "\<exists>y. get_at (append_child c e) r = Some y \<and> tag y = tag x"
    by (cases r) (auto simp: append_child_def nth_append split: if_splits)
qed

section \<open>Reordering\<close>

lemma findall_child_snd:
  "map snd (findall_child tg e) = filter (\<lambda>c. tag c = tg) (children e)"
proof -
  have "map snd (filter (\<lambda>(i, c). tag c = tg) xs) = filter (\<lambda>c. tag c = tg) (map snd xs)" for xs :: "(nat \<times> elem) list"
    by (induction xs) auto
  then show ?thesis by (simp add: findall_child_def map_snd_enumerate)
qed

lemma findall_child_nth:
  "(i, c) \<in> set (findall_child tg e) \<Longrightarrow> i < length (children e) \<and> children e ! i = c \<and> tag c = tg"
  by (auto simp: findall_child_def in_set_enumerate_eq)

lemma foldl_remove1_distinct:
  "distinct zs \<Longrightarrow> foldl (\<lambda>cs x. remove1 x cs) zs ys = filter (\<lambda>z. z \<notin> set ys) zs"
proof (induction ys arbitrary: zs)
  case Nil
  then show ?case by simp
next
  case (Cons y ys)
  have "remove1 y zs = filter (\<lambda>z. z \<noteq> y) zs"
    using Cons.prems by (simp add: distinct_remove1_removeAll removeAll_filter_not_eq) metis
  moreover have "distinct (remove1 y zs)" using Cons.prems by simp
  ultimately show ?case using Cons.IH [of "remove1 y zs"]
    by (auto intro: filter_cong)
qed

lemma foldl_snoc: "foldl (\<lambda>cs x. cs @ [x]) zs ys = zs @ ys"
  by (induction ys arbitrary: zs) auto

lemma map_insort_key:
  "map f (insort_key (\<lambda>a. k (f a)) x xs) = insort_key k (f x) (map f xs)"
  by (induction xs) auto

lemma map_sort_key: "map f (sort_key (\<lambda>a. k (f a)) xs) = sort_key k (map f xs)"
  by (induction xs) (auto simp: map_insort_key)

lemma reorder_overlays_eq:
  "reorder_overlays d =
     Elem (tag d) (text_of d)
       (filter (\<lambda>c. tag c \<noteq> tag_GroundOverlay) (children d) @
        sort_key get_overlay_key (filter (\<lambda>c. tag c = tag_GroundOverlay) (children d)))"
proof -
  let ?kids = "enumerate 0 (children d)"
  let ?P = "\<lambda>(i :: nat, c). tag c = tag_GroundOverlay"
  let ?ovs = "filter ?P ?kids"
  have d: "distinct ?kids" by (simp add: distinct_enumerate)
  have r: "foldl (\<lambda>cs ov. remove1 ov cs) ?kids ?ovs = filter (\<lambda>z. \<not> ?P z) ?kids"
    unfolding foldl_remove1_distinct [OF d] by (rule filter_cong) auto
  have k: "(\<lambda>(i :: nat, c). get_overlay_key c) = (\<lambda>z. get_overlay_key (snd z))"
    by auto
  have s1: "map snd (filter (\<lambda>z. \<not> ?P z) ?kids) = filter (\<lambda>c. tag c \<noteq> tag_GroundOverlay) (children d)"
  proof -
    have "map snd (filter (\<lambda>z. \<not> ?P z) xs) = filter (\<lambda>c. tag c \<noteq> tag_GroundOverlay) (map snd xs)"
      for xs :: "(nat \<times> elem) list"
      by (induction xs) auto
    then show ?thesis by (simp add: map_snd_enumerate)
  qed
  have s2: "map snd ?ovs = filter (\<lambda>c. tag c = tag_GroundOverlay) (children d)"
    using findall_child_snd [of tag_GroundOverlay d] by (simp add: findall_child_def)
  show ?thesis
    unfolding reorder_overlays_def Let_def r foldl_snoc k
    by (simp add: map_sort_key s1 s2)
qed

section \<open>Locating the group node and renaming it\<close>

lemma map_of_filter_key:
  "map_of (filter (\<lambda>(j, c). j \<noteq> i) rc) k = (if k = i then None else map_of rc k)"
  by (induction rc) auto

lemma map_of_enumerate_nth:
  "map_of (enumerate n cs) i = (if n \<le> i \<and> i < n + length cs then Some (cs ! (i - n)) else None)"
proof (induction cs arbitrary: n)
  case Nil
  then show ?case by simp
next
  case (Cons c cs)
  show ?case
  proof (cases "i = n")
    case True
    then show ?thesis by simp
  next
    case False
    then show ?thesis using Cons.IH [of "Suc n"]
      by (auto simp: nth_Cons' Suc_diff_le)
  qed
qed

lemma move_overlays_Inr:
  "move_overlays ps rc dc = Inr (rc', dc') \<Longrightarrow>
     \<exists>is. ps = map (\<lambda>i. [i]) is \<and> distinct is \<and> (\<forall>i\<in>set is. map_of rc i \<noteq> None) \<and>
          dc' = dc @ map (\<lambda>i. the (map_of rc i)) is \<and>
          rc' = filter (\<lambda>(j, c). j \<notin> set is) rc"
proof (induction ps arbitrary: rc dc)
  case Nil
  then show ?case by simp
next
  case (Cons p ps)
  from Cons.prems obtain i ov where p: "p = [i]" and ov: "map_of rc i = Some ov"
    and rest: "move_overlays ps (filter (\<lambda>(j, c). j \<noteq> i) rc) (dc @ [ov]) = Inr (rc', dc')"
    by (auto split: list.splits option.splits)
  from Cons.IH [OF rest] obtain js where js: "ps = map (\<lambda>i. [i]) js" "distinct js"
    "\<forall>k\<in>set js. map_of (filter (\<lambda>(j, c). j \<noteq> i) rc) k \<noteq> None"
    "dc' = (dc @ [ov]) @ map (\<lambda>k. the (map_of (filter (\<lambda>(j, c). j \<noteq> i) rc) k)) js"
    "rc' = filter (\<lambda>(j, c). j \<notin> set js) (filter (\<lambda>(j, c). j \<noteq> i) rc)"
    by blast
  from js(3) have ni: "i \<notin> set js" and nn: "\<forall>k\<in>set js. map_of rc k \<noteq> None"
    by (auto simp: map_of_filter_key split: if_splits)
  have m: "map (\<lambda>k. the (map_of (filter (\<lambda>(j, c). j \<noteq> i) rc) k)) js = map (\<lambda>k. the (map_of rc k)) js"
    using ni by (intro map_cong) (auto simp: map_of_filter_key)
  have f: "rc' = filter (\<lambda>(j, c). j \<notin> set (i # js)) rc"
    unfolding js(5) by (auto intro: filter_cong)
  show ?case
    apply (rule exI [of _ "i # js"])
    using p js(1,2) ni nn ov m js(4) f by simp
qed


lemma findall_desc_get:
  "(p, x) \<in> set (findall_desc tg e) \<Longrightarrow> get_at e p = Some x \<and> tag x = tg \<and> p \<noteq> []"
  using desc_get [of p x e] desc_nonempty [of p x e] by (auto simp: findall_desc_def)

lemma map_fst_Cons_mem: "map fst xs = p # ps \<Longrightarrow> \<exists>x. (p, x) \<in> set xs"
  by (cases xs) auto

lemma find_desc_Some:
  "find_desc tg e = Some p \<Longrightarrow> \<exists>x. get_at e p = Some x \<and> tag x = tg"
proof -
  assume "find_desc tg e = Some p"
  then obtain x where "(p, x) \<in> set (findall_desc tg e)"
    by (auto simp: find_desc_def split: list.splits)
  then show ?thesis using findall_desc_get by blast
qed

lemma find_group_Some:
  "find_group root = Some p \<Longrightarrow> \<exists>x. get_at root p = Some x \<and> (tag x = tag_Document \<or> tag x = tag_Folder)"
  using find_desc_Some by (fastforce simp: find_group_def split: option.splits)

lemma locate_group_valid:
  assumes ov: "overlays = map fst (findall_desc tag_GroundOverlay root)"
    and ne: "overlays \<noteq> []"
    and loc: "locate_group root overlays = Inr (root1, doc, first)"
  shows "\<exists>d t. get_at root1 doc = Some d \<and> (tag d = tag_Document \<or> tag d = tag_Folder) \<and>
               get_at root1 first = Some t \<and> tag t = tag_GroundOverlay \<and> first \<noteq> []"
proof (cases "find_group root")
  case (Some g)
  with loc have r: "root1 = root" "doc = g" "first = hd overlays"
    by (auto simp: locate_group_def)
  from ne ov have "map fst (findall_desc tag_GroundOverlay root) = hd overlays # tl overlays"
    by simp
  from map_fst_Cons_mem [OF this] obtain x where "(hd overlays, x) \<in> set (findall_desc tag_GroundOverlay root)"
    by blast
  then have "get_at root (hd overlays) = Some x \<and> tag x = tag_GroundOverlay \<and> hd overlays \<noteq> []"
    using findall_desc_get by blast
  with find_group_Some [OF Some] r show ?thesis by auto
next
  case None
  with loc obtain rc dc where mv: "move_overlays overlays (enumerate 0 (children root)) [] = Inr (rc, dc)"
    and r: "root1 = Elem (tag root) (text_of root) (map snd rc @ [Elem tag_Document None dc])"
      "doc = [length rc]" "first = [length rc, 0]"
    by (auto simp: locate_group_def split: sum.splits)
  from move_overlays_Inr [OF mv] obtain js where js: "overlays = map (\<lambda>i. [i]) js"
    "\<forall>i\<in>set js. map_of (enumerate 0 (children root)) i \<noteq> None"
    "dc = map (\<lambda>i. the (map_of (enumerate 0 (children root)) i)) js"
    by auto
  from ne js(1) obtain j js' where j: "js = j # js'" by (cases js) auto
  with js(2) have jl: "j < length (children root)"
    by (auto simp: map_of_enumerate_nth split: if_splits)
  then have dc0: "dc = (children root ! j) # tl dc"
    using js(3) j by (simp add: map_of_enumerate_nth)
  from j js(1) ov have "map fst (findall_desc tag_GroundOverlay root) = [j] # map (\<lambda>i. [i]) js'"
    by simp
  from map_fst_Cons_mem [OF this] obtain x where "([j], x) \<in> set (findall_desc tag_GroundOverlay root)"
    by blast
  then have "get_at root [j] = Some x \<and> tag x = tag_GroundOverlay"
    using findall_desc_get by blast
  with jl have tg: "tag (children root ! j) = tag_GroundOverlay" by simp
  have "get_at root1 doc = Some (Elem tag_Document None dc)"
    unfolding r by (simp add: nth_append)
  moreover have "get_at root1 first = Some (children root ! j)"
    unfolding r using dc0 by (simp add: nth_append) (metis nth_Cons_0 length_greater_0_conv list.distinct(1))
  ultimately show ?thesis using tg r(3) by simp
qed

lemma set_group_name_tag [simp]: "tag (set_group_name nm d) = tag d"
  by (auto simp: set_group_name_def append_child_def split: list.splits)



lemma keeps_set_group_name: "keeps (set_group_name nm)"
  unfolding keeps_def
proof (intro allI impI)
  fix e r x
  assume g: "get_at e r = Some x"
  show "\<exists>y. get_at (set_group_name nm e) r = Some y \<and> tag y = tag x"
  proof (cases "findall_child tag_name e")
    case Nil
    then have "set_group_name nm e = append_child (Elem tag_name (Some nm) []) e"
      by (simp add: set_group_name_def)
    with g keeps_append_child show ?thesis by (simp add: keeps_def)
  next
    case (Cons a as)
    obtain i c where a: "a = (i, c)" by (cases a)
    with Cons have "(i, c) \<in> set (findall_child tag_name e)" by simp
    from findall_child_nth [OF this] have i: "i < length (children e)" "children e ! i = c"
      by auto
    from Cons a have s: "set_group_name nm e = Elem (tag e) (text_of e) ((children e)[i := set_text (Some nm) c])"
      by (simp add: set_group_name_def)
    show ?thesis
    proof (cases r)
      case Nil
      with g s show ?thesis by simp
    next
      case (Cons j r')
      with g have j: "j < length (children e)" and g': "get_at (children e ! j) r' = Some x"
        by (auto split: if_splits)
      show ?thesis
      proof (cases "j = i")
        case False
        with s Cons j g' show ?thesis by simp
      next
        case True
        with g' i have "\<exists>y. get_at (set_text (Some nm) c) r' = Some y \<and> tag y = tag x"
          by (cases r') (auto simp: set_text_def split: if_splits)
        with s Cons j True i show ?thesis by simp
      qed
    qed
  qed
qed

section \<open>Cloning\<close>

lemma icon_hrefs_nonempty: "(q, c) \<in> set (icon_hrefs e) \<Longrightarrow> q \<noteq> []"
  by (auto simp: icon_hrefs_def)

lemma set_text_tag [simp]: "tag (set_text x e) = tag e"
  by (simp add: set_text_def)

lemma make_overlay_tag [simp]: "tag (make_overlay u f t) = tag t"
proof -
  have a: "tag (case icon_hrefs t of [] \<Rightarrow> t | (q, h) # _ \<Rightarrow> update_at q g t) = tag t" for g
  proof (cases "icon_hrefs t")
    case Nil
    then show ?thesis by simp
  next
    case (Cons a as)
    obtain q h where "a = (q, h)" by (cases a)
    with Cons icon_hrefs_nonempty [of q h t] show ?thesis by (simp add: tag_update_at)
  qed
  have b: "tag (case findall_desc tag_name o1 of [] \<Rightarrow> o1 | (q, h) # _ \<Rightarrow> update_at q g o1) = tag o1" for g o1
  proof (cases "findall_desc tag_name o1")
    case Nil
    then show ?thesis by simp
  next
    case (Cons a as)
    obtain q h where "a = (q, h)" by (cases a)
    with Cons findall_desc_get [of q h tag_name o1] show ?thesis by (simp add: tag_update_at)
  qed
  show ?thesis
    unfolding make_overlay_def Let_def by (simp only: a b)
qed

lemma add_clones_effect:
  assumes "get_at root doc = Some d" and "get_at root first = Some t" and "tag t = tag_GroundOverlay"
  shows "\<exists>root' clones. add_clones u first doc fs root = Inr root' \<and>
           get_at root' doc = Some (Elem (tag d) (text_of d) (children d @ clones)) \<and>
           list_all2 (clone_of u) clones fs"
  using assms
proof (induction fs arbitrary: root d t)
  case Nil
  then show ?case by (cases d) simp
next
  case (Cons f fs)
  let ?c = "make_overlay u f t"
  let ?r = "update_at doc (append_child ?c) root"
  have d1: "get_at ?r doc = Some (append_child ?c d)"
    using Cons.prems(1) by (rule get_update_same)
  have "keeps (update_at doc (append_child ?c))"
    by (intro keeps_update_at keeps_append_child)
  with Cons.prems(2,3) obtain t1 where t1: "get_at ?r first = Some t1" "tag t1 = tag_GroundOverlay"
    unfolding keeps_def by metis
  from Cons.IH [OF d1 t1] obtain root' clones where
    r: "add_clones u first doc fs ?r = Inr root'"
      "get_at root' doc = Some (Elem (tag (append_child ?c d)) (text_of (append_child ?c d))
                                  (children (append_child ?c d) @ clones))"
      "list_all2 (clone_of u) clones fs"
    by blast
  have c: "clone_of u ?c f"
    unfolding clone_of_def using Cons.prems(3) by blast
  show ?case
    apply (rule exI [of _ root'], rule exI [of _ "?c # clones"])
    using r c Cons.prems(2) by (simp add: append_child_def)
qed


lemma move_overlays_Inl: "move_overlays ps rc dc = Inl e \<Longrightarrow> e = ValueError"
  by (induction ps rc dc rule: move_overlays.induct) (auto split: list.splits option.splits)

lemma build_tree_no_dangling: "build_tree root pngs unit \<noteq> Inl DanglingReference"
proof (cases "map fst (findall_desc tag_GroundOverlay root) = []")
  case True
  then show ?thesis by (simp add: build_tree_def)
next
  case ne: False
  let ?ovs = "map fst (findall_desc tag_GroundOverlay root)"
  show ?thesis
  proof (cases "locate_group root ?ovs")
    case (Inl e)
    then have "e = ValueError"
      using move_overlays_Inl by (auto simp: locate_group_def split: option.splits sum.splits)
    with Inl ne show ?thesis by (simp add: build_tree_def)
  next
    case (Inr x)
    obtain root1 doc first where x: "x = (root1, doc, first)" by (cases x)
    let ?r2 = "update_at doc (set_group_name unit) root1"
    from locate_group_valid [OF refl ne Inr [unfolded x]] obtain d1 t where
      v: "get_at root1 doc = Some d1" "get_at root1 first = Some t" "tag t = tag_GroundOverlay"
      by blast
    have "keeps (update_at doc (set_group_name unit))"
      by (intro keeps_update_at keeps_set_group_name)
    with v(2,3) obtain tmpl where tm: "get_at ?r2 first = Some tmpl" "tag tmpl = tag_GroundOverlay"
      unfolding keeps_def by metis
    have d2: "get_at ?r2 doc = Some (set_group_name unit d1)"
      using v(1) by (rule get_update_same)
    from add_clones_effect [OF d2 tm, of unit "create_list_of (original_png_of tmpl) pngs"]
    obtain root3 where "add_clones unit first doc (create_list_of (original_png_of tmpl) pngs) ?r2 = Inr root3"
      by blast
    with Inr x ne tm(1) show ?thesis by (simp add: build_tree_def)
  qed
qed

section \<open>The overlays of the group node after the transformation\<close>







section \<open>Order of the overlays\<close>






section \<open>The scenario of the specification\<close>

text \<open>
  C5. The scenario of the specification, run through the transformation: three overlays
  with the expected names in the expected order, the two clones relinked into the unit's
  subfolder, and the template still referencing \<open>base.png\<close> as it did in the input.
\<close>

theorem scenario_result:
  "map (\<lambda>ov. (display_name ov, asset_reference ov))
       (group_overlays_of (modify_tree scenario_doc scenario_pngs ''N56E29'')) =
     [(Some ''N56E29-001'', Some ''base.png''),
      (Some ''N56E29-002'', Some ''N56E29/N56E29-002.png''),
      (Some ''N56E29-010'', Some ''N56E29/N56E29-010.png'')]"
  by code_simp

section \<open>Synthesis of the group node\<close>

lemma desc_list_direct:
  "filter (\<lambda>(p, x). length p = 1) (desc_list i cs) = map (\<lambda>(j, c). ([j], c)) (enumerate i cs)"
proof (induction cs arbitrary: i)
  case Nil
  then show ?case by simp
next
  case (Cons c cs)
  have "filter (\<lambda>(p, x). length p = 1) (map (\<lambda>(p, e). (i # p, e)) (desc c)) = []"
    using desc_nonempty [of _ _ c] by (auto simp: filter_empty_conv)
  with Cons.IH [of "Suc i"] show ?case by simp
qed

lemma findall_desc_direct:
  assumes "\<forall>p\<in>set (map fst (findall_desc tg root)). length p = 1"
  shows "findall_desc tg root =
           map (\<lambda>(j, c). ([j], c)) (filter (\<lambda>(j, c). tag c = tg) (enumerate 0 (children root)))"
proof -
  have "findall_desc tg root = filter (\<lambda>(p, x). length p = 1) (findall_desc tg root)"
    using assms by (intro filter_True [symmetric]) auto
  also have "\<dots> = filter (\<lambda>(p, d). tag d = tg) (filter (\<lambda>(p, x). length p = 1) (desc root))"
    by (simp add: findall_desc_def conj_commute)
  also have "\<dots> = filter (\<lambda>(p, d). tag d = tg) (map (\<lambda>(j, c). ([j], c)) (enumerate 0 (children root)))"
    by (simp only: desc_children desc_list_direct)
  also have "\<dots> = map (\<lambda>(j, c). ([j], c)) (filter (\<lambda>(j, c). tag c = tg) (enumerate 0 (children root)))"
    by (simp add: filter_map comp_def case_prod_unfold)
  finally show ?thesis .
qed

lemma move_overlays_direct:
  "distinct js \<Longrightarrow> \<forall>i\<in>set js. map_of rc i \<noteq> None \<Longrightarrow>
     move_overlays (map (\<lambda>i. [i]) js) rc dc =
       Inr (filter (\<lambda>(j, c). j \<notin> set js) rc, dc @ map (\<lambda>i. the (map_of rc i)) js)"
proof (induction js arbitrary: rc dc)
  case Nil
  then show ?case by simp
next
  case (Cons i js)
  from Cons.prems obtain ov where ov: "map_of rc i = Some ov" by auto
  let ?rc = "filter (\<lambda>(j, c). j \<noteq> i) rc"
  have n: "\<forall>k\<in>set js. map_of ?rc k \<noteq> None"
    using Cons.prems by (auto simp: map_of_filter_key)
  have m: "map (\<lambda>k. the (map_of ?rc k)) js = map (\<lambda>k. the (map_of rc k)) js"
    using Cons.prems(1) by (intro map_cong) (auto simp: map_of_filter_key)
  have f: "filter (\<lambda>(j, c). j \<notin> set js) ?rc = filter (\<lambda>(j, c). j \<notin> set (i # js)) rc"
    by (auto intro: filter_cong)
  from Cons.prems(1) have "distinct js" by simp
  from Cons.IH [OF this n, of "dc @ [ov]"] ov m f show ?case by simp
qed

text \<open>
  When the document has no group node and every overlay is a child of the root, the root
  keeps its other children, followed by one new \<open>Document\<close> that holds the overlays in
  their order.
\<close>

lemma locate_group_synthesis:
  assumes "find_group root = None"
    and "\<forall>p\<in>set (map fst (findall_desc tag_GroundOverlay root)). length p = 1"
  shows "locate_group root (map fst (findall_desc tag_GroundOverlay root)) =
           Inr (Elem (tag root) (text_of root)
                  (filter (\<lambda>c. tag c \<noteq> tag_GroundOverlay) (children root) @
                   [Elem tag_Document None (overlay_children root)]),
                [length (filter (\<lambda>c. tag c \<noteq> tag_GroundOverlay) (children root))],
                [length (filter (\<lambda>c. tag c \<noteq> tag_GroundOverlay) (children root)), 0])"
proof -
  let ?cs = "children root"
  let ?en = "enumerate 0 ?cs"
  let ?ovs = "filter (\<lambda>(j, c). tag c = tag_GroundOverlay) ?en"
  let ?js = "map fst ?ovs"
  have ps: "map fst (findall_desc tag_GroundOverlay root) = map (\<lambda>i. [i]) ?js"
    unfolding findall_desc_direct [OF assms(2)] by (simp add: comp_def case_prod_unfold)
  have dj: "distinct ?js"
    by (rule distinct_map_filter) simp
  have mo: "map_of ?en j = Some c" if "(j, c) \<in> set ?en" for j c
    using that by (intro map_of_is_SomeI) simp_all
  have nn: "\<forall>i\<in>set ?js. map_of ?en i \<noteq> None"
    using mo by fastforce
  have js: "j \<in> set ?js \<longleftrightarrow> tag c = tag_GroundOverlay" if "(j, c) \<in> set ?en" for j c
  proof
    assume "j \<in> set ?js"
    then obtain c' where "(j, c') \<in> set ?en" "tag c' = tag_GroundOverlay" by auto
    with that mo [of j c] mo [of j c'] show "tag c = tag_GroundOverlay" by simp
  next
    assume "tag c = tag_GroundOverlay"
    with that show "j \<in> set ?js" by force
  qed
  have rc: "map snd (filter (\<lambda>(j, c). j \<notin> set ?js) ?en) = filter (\<lambda>c. tag c \<noteq> tag_GroundOverlay) ?cs"
  proof -
    have "filter (\<lambda>(j, c). j \<notin> set ?js) ?en = filter (\<lambda>(j, c). tag c \<noteq> tag_GroundOverlay) ?en"
      using js by (intro filter_cong) auto
    moreover have "map snd (filter (\<lambda>(j, c). tag c \<noteq> tag_GroundOverlay) xs) =
                   filter (\<lambda>c. tag c \<noteq> tag_GroundOverlay) (map snd xs)" for xs :: "(nat \<times> elem) list"
      by (induction xs) auto
    ultimately show ?thesis by (simp add: map_snd_enumerate)
  qed
  have dc: "map (\<lambda>i. the (map_of ?en i)) ?js = overlay_children root"
  proof -
    have "map (\<lambda>i. the (map_of ?en i)) ?js = map snd ?ovs"
      using mo by (auto intro!: map_cong)
    also have "\<dots> = overlay_children root"
      using findall_child_snd [of tag_GroundOverlay root]
      by (simp add: findall_child_def overlay_children_def)
    finally show ?thesis .
  qed
  have "move_overlays (map (\<lambda>i. [i]) ?js) ?en [] =
          Inr (filter (\<lambda>(j, c). j \<notin> set ?js) ?en, [] @ map (\<lambda>i. the (map_of ?en i)) ?js)"
    using dj nn by (rule move_overlays_direct)
  then show ?thesis
    unfolding locate_group_def ps assms(1)
    using rc dc by (simp add: length_map [of snd, symmetric] del: length_map)
qed

text \<open>
  C8. A document without group node whose overlay is nested below the root: the overlay is
  found by the descendant search of line 97, and \<open>root.remove\<close> of line 114 raises because
  the overlay is not a child of the root.
\<close>

theorem synthesis_nested_overlay:
  "find_group nested_doc = None \<and>
   map fst (findall_desc tag_GroundOverlay nested_doc) = [[0, 0, 0, 0]] \<and>
   modify_tree nested_doc scenario_pngs ''N56E29'' = Inl ValueError"
  by code_simp

section \<open>Setting a text leaves the structure alone\<close>

lemma sk_tag [simp]: "tag (sk e) = tag e"
  by (cases e) simp

lemma sk_children [simp]: "children (sk e) = map sk (children e)"
  by (cases e) simp

lemma sk_set_text [simp]: "sk (set_text x e) = sk e"
  by (cases e) (simp add: set_text_def)











section \<open>No clone for the asset of the template\<close>






lemma not_space_slash [simp]: "\<not> is_space (CHR ''/'')"
  by (simp add: is_space_def)




section \<open>Documents whose overlays are children of the group node\<close>




















lemma reorder_overlays_tag [simp]: "tag (reorder_overlays d) = tag d"
  by (simp add: reorder_overlays_eq)


section \<open>The overlays that reference the template's asset\<close>




section \<open>File system effects\<close>

lemma map_of_upsert: "map_of (upsert k v es) k = Some v"
proof (cases "k \<in> set (map fst es)")
  case True
  then show ?thesis
    by (induction es) (auto simp: upsert_def)
next
  case False
  then have "map_of es k = None" by (simp add: map_of_eq_None_iff)
  with False show ?thesis by (simp add: upsert_def map_add_def)
qed

lemma lookup_delete: "ks \<noteq> [] \<Longrightarrow> lookup (delete ks n) ks = None"
proof (induction ks n rule: delete.induct)
  case (1 n)
  then show ?case by simp
next
  case (2 k ks c)
  then show ?case by simp
next
  case (3 k es)
  have "map_of (filter (\<lambda>(k', v). k' \<noteq> k) es) k = None"
    by (induction es) auto
  then show ?case by simp
next
  case (4 k v va es)
  then show ?case by (auto simp: map_of_upsert split: option.splits)
qed

lemma rmtree_gone: "rmtree fs p = Some fs' \<Longrightarrow> \<not> path_exists fs' p"
  by (auto simp: rmtree_def path_exists_def lookup_delete split: if_splits)

lemma cleanup_gone: "cleanup fs p b = (Inr b', fs') \<Longrightarrow> \<not> path_exists fs' p"
  by (auto simp: cleanup_def rmtree_gone split: option.splits)

text \<open>
  On every path on which \<open>process_subfolder\<close> returns, either nothing has happened yet
  (no container or no image in the unit) or the working directory has been removed.
\<close>

lemma process_subfolder_returns_clean:
  assumes "process_subfolder fs subfolder_path output_folder = (Inr b, fs')"
  shows "fs' = fs \<or> \<not> path_exists fs' (temp_dir_of subfolder_path output_folder)"
  using assms
  by (auto simp: process_subfolder_def Let_def dest: cleanup_gone
           split: option.splits if_splits prod.splits sum.splits bool.splits)

lemma lookup_put: "put ks new n = Some n' \<Longrightarrow> lookup n' ks = Some new"
proof (induction ks new n arbitrary: n' rule: put.induct)
  case (1 new n)
  then show ?case by simp
next
  case (2 k ks new c)
  then show ?case by simp
next
  case (3 k new es)
  then show ?case by (auto simp: map_of_upsert)
next
  case (4 k v va new es)
  then show ?case by (auto simp: map_of_upsert split: option.splits)
qed

lemma read_write_file: "write_file fs p c = Some fs' \<Longrightarrow> read_file fs' p = Some c"
  by (auto simp: write_file_def read_file_def dest: lookup_put split: if_splits)

text \<open>
  When \<open>modify_kml\<close> returns \<open>True\<close>, the document it has written is the one
  \<open>modify_tree\<close> computes from the document it has read.
\<close>

lemma modify_kml_True:
  assumes "modify_kml fs kml_path pngs unit = (Inr True, fs')"
  shows "\<exists>root root' doc. read_file fs kml_path = Some (Markup root) \<and>
           modify_tree root pngs unit = Inr (Some (root', doc)) \<and>
           read_file fs' kml_path = Some (Markup root')"
  using assms
  by (auto simp: modify_kml_def Let_def dest: read_write_file
           split: option.splits fcontent.splits sum.splits prod.splits if_splits)

section \<open>A document without overlay\<close>

lemma modify_tree_no_overlay:
  "findall_desc tag_GroundOverlay root = [] \<Longrightarrow> modify_tree root pngs unit = Inr None"
  by (simp add: modify_tree_def build_tree_def)

text \<open>
  C10. When the parsed document has no \<open>GroundOverlay\<close> anywhere, \<open>modify_kml\<close> returns
  \<open>False\<close> and the file system is as before: no subfolder, no copied asset, and the KML
  file keeps its content.
\<close>

theorem modify_kml_no_overlay:
  assumes "read_file fs kml_path = Some (Markup root)"
    and "findall_desc tag_GroundOverlay root = []"
  shows "modify_kml fs kml_path png_filepaths subfolder_name = (Inr False, fs)"
  using assms by (simp add: modify_kml_def modify_tree_no_overlay)

theorem modify_kml_no_overlay_witness:
  "read_file work_fs ''/out/temp_extract_U/doc.kml'' = Some (Markup empty_doc) \<and>
   findall_desc tag_GroundOverlay empty_doc = [] \<and>
   modify_kml work_fs ''/out/temp_extract_U/doc.kml'' [''/in/U/a-1.png''] ''U'' = (Inr False, work_fs)"
proof -
  have r: "read_file work_fs ''/out/temp_extract_U/doc.kml'' = Some (Markup empty_doc)"
    by code_simp
  have e: "findall_desc tag_GroundOverlay empty_doc = []"
    by code_simp
  from r e modify_kml_no_overlay [OF r e] show ?thesis by simp
qed

section \<open>The working directory\<close>

text \<open>
  C3. A unit whose document does not parse: \<open>process_subfolder\<close> is left by the parse
  error after the working directory has been created and filled, and the directory is
  still there.
\<close>

theorem process_subfolder_parse_error_leaves_temp_dir:
  "fst (process_subfolder batch_fs ''/in/M55E28'' ''/out'') = Inl ParseError \<and>
   path_exists (snd (process_subfolder batch_fs ''/in/M55E28'' ''/out''))
     (temp_dir_of ''/in/M55E28'' ''/out'') \<and>
   \<not> path_exists batch_fs (temp_dir_of ''/in/M55E28'' ''/out'')"
  by code_simp

section \<open>Exceptions in the batch\<close>


lemma modify_kml_parse_error:
  "read_file fs kml_path = Some c \<Longrightarrow> (\<forall>root. c \<noteq> Markup root) \<Longrightarrow>
     modify_kml fs kml_path pngs unit = (Inl ParseError, fs)"
  by (cases c) (auto simp: modify_kml_def)




section \<open>Order of the archive members\<close>




lemma same_content_is_dir: "same_content a b \<Longrightarrow> is_dir a = is_dir b"
  by (cases a; cases b) auto















end
